theory Spec2Isabelle
  imports Main "HOL-Library.Sublist"
begin

section \<open>Go values used by the two packages\<close>

text \<open>
  A Go \<open>error\<close> value is modelled by the text its \<open>Error()\<close> method returns and by
  what \<open>os.IsNotExist\<close> answers for it. \<open>nil\<close> is \<open>None\<close> of \<open>goerror option\<close>.
  \<open>fmt.Errorf\<close> builds a plain error, for which \<open>os.IsNotExist\<close> is false.
\<close>

datatype goerror = GoError (Error: string) (IsNotExist: bool)

definition Errorf :: "string \<Rightarrow> goerror" where
  "Errorf msg = GoError msg False"

text \<open>
  A Go slice is \<open>'a list option\<close>: \<open>None\<close> is the \<open>nil\<close> slice, \<open>Some []\<close> the
  empty slice \<open>[]T{}\<close>. \<open>append\<close> on either gives a non-nil slice.
\<close>

type_synonym 'a slice = "'a list option"

fun elems :: "'a slice \<Rightarrow> 'a list" where
  "elems None = []"
| "elems (Some xs) = xs"

definition append :: "'a slice \<Rightarrow> 'a \<Rightarrow> 'a slice" where
  "append s x = Some (elems s @ [x])"

section \<open>Package kssh: the argument scanner\<close>

record CLIArgument =
  Name :: string
  HasArgument :: bool

record ParsedCLIArgument =
  Argument :: CLIArgument
  Value :: string

text \<open>
  The inner \<open>for _, cliArg := range cliArguments\<close> loop of \<open>ParseArgs\<close>, run at index
  \<open>i\<close> of \<open>args\<close>. It leaves in one of three ways: by \<open>return nil, nil, err\<close>, by
  \<open>continue OUTER\<close> (with the values \<open>i\<close> and \<open>found\<close> have at that moment), or
  by running off the end of \<open>cliArguments\<close>.
\<close>

datatype inner_exit =
    Return_err goerror
  | Continue_OUTER nat "ParsedCLIArgument list"
  | Fell_through

fun inner_loop ::
  "string list \<Rightarrow> nat \<Rightarrow> ParsedCLIArgument list \<Rightarrow> CLIArgument list \<Rightarrow> inner_exit" where
  "inner_loop args i found [] = Fell_through"
| "inner_loop args i found (cliArg # rest) =
     (if Name cliArg = args ! i then
        (if HasArgument cliArg then
           (if i + 1 = length args then
              Return_err (Errorf (''argument '' @ Name cliArg @ '' requires a value''))
            else
              Continue_OUTER (i + 1)
                (found @ [\<lparr>Argument = cliArg, Value = args ! (i + 1)\<rparr>]))
         else Continue_OUTER i (found @ [\<lparr>Argument = cliArg, Value = []\<rparr>]))
      else inner_loop args i found rest)"

lemma inner_loop_Continue_ge:
  "inner_loop args i found cs = Continue_OUTER i' found' \<Longrightarrow> i \<le> i'"
  by (induction cs) (auto split: if_splits)

text \<open>
  The loop labelled \<open>OUTER\<close>: \<open>for i := 0; i < len(args); i++\<close>, with the two
  accumulators. \<open>continue OUTER\<close> runs the post statement \<open>i++\<close>.
\<close>

function OUTER ::
  "string list \<Rightarrow> CLIArgument list \<Rightarrow> nat \<Rightarrow> string list \<Rightarrow> ParsedCLIArgument list
   \<Rightarrow> string slice \<times> ParsedCLIArgument slice \<times> goerror option" where
  "OUTER args cliArguments i remainingArguments found =
     (if i < length args then
        (case inner_loop args i found cliArguments of
           Return_err e \<Rightarrow> (None, None, Some e)
         | Continue_OUTER i' found' \<Rightarrow>
             OUTER args cliArguments (i' + 1) remainingArguments found'
         | Fell_through \<Rightarrow>
             OUTER args cliArguments (i + 1) (remainingArguments @ [args ! i]) found)
      else (Some remainingArguments, Some found, None))"
  by pat_completeness auto

termination
  by (relation "measure (\<lambda>(args, cs, i, r, f). length args - i)")
     (auto dest: inner_loop_Continue_ge)

declare OUTER.simps [simp del]

definition ParseArgs ::
  "string list \<Rightarrow> CLIArgument list
   \<Rightarrow> string slice \<times> ParsedCLIArgument slice \<times> goerror option" where
  "ParseArgs args cliArguments = OUTER args cliArguments 0 [] []"

section \<open>Library functions of package strings\<close>

text \<open>
  Go strings are byte sequences: \<open>string\<close> (a \<open>char list\<close>, one \<open>char\<close> per byte).
  \<open>string(bytes)\<close> of a byte slice is \<open>elems bytes\<close>.

  \<open>strings.Index(s, substr)\<close>: the index of the first instance of \<open>substr\<close> in
  \<open>s\<close>; \<open>None\<close> stands for \<open>-1\<close>. \<open>strings.Contains(s, substr)\<close> is
  \<open>Index(s, substr) >= 0\<close>.
\<close>

fun Index :: "string \<Rightarrow> string \<Rightarrow> nat option" where
  "Index [] substr = (if substr = [] then Some 0 else None)"
| "Index (c # s) substr =
     (if prefix substr (c # s) then Some 0 else map_option Suc (Index s substr))"

definition Contains :: "string \<Rightarrow> string \<Rightarrow> bool" where
  "Contains s substr = (Index s substr \<noteq> None)"

lemma Index_bound: "Index s sep = Some m \<Longrightarrow> m + length sep \<le> length s"
proof (induction s arbitrary: m)
  case Nil
  then show ?case by (simp split: if_splits)
next
  case (Cons c s)
  then show ?case by (auto split: if_splits dest: prefix_length_le)
qed

lemma Index_shorter:
  "Index s sep = Some m \<Longrightarrow> sep \<noteq> [] \<Longrightarrow> length s - (m + length sep) < length s"
  using Index_bound [of s sep m] by (cases sep) auto

text \<open>
  \<open>strings.Split(s, sep)\<close> for a non-empty separator, as the loop of \<open>genSplit\<close>
  does it: cut at the first instance of \<open>sep\<close>, go on behind it, and end with what
  is left. (With the empty separator Go cuts after every UTF-8 sequence; the packages
  never do that and the model leaves \<open>s\<close> whole there.)
\<close>

function Split :: "string \<Rightarrow> string \<Rightarrow> string list" where
  "Split s sep =
     (case Index s sep of
        None \<Rightarrow> [s]
      | Some m \<Rightarrow>
          if sep = [] then [s]
          else take m s # Split (drop (m + length sep) s) sep)"
  by pat_completeness auto
termination
  by (relation "measure (\<lambda>(s, sep). length s)") (auto dest: Index_shorter)

declare Split.simps [simp del]

text \<open>
  \<open>strings.TrimSpace(s)\<close> removes the leading and the trailing white space, as
  \<open>unicode.IsSpace\<close> defines it, of the UTF-8 text \<open>s\<close>. A rune decoded at the
  front (or at the back) of \<open>s\<close> is white space exactly when the bytes there are the
  UTF-8 encoding of one of: U+0009 to U+000D, U+0020, U+0085, U+00A0, U+1680, U+2000 to
  U+200A, U+2028, U+2029, U+202F, U+205F, U+3000.
\<close>

definition space_encodings :: "string list" where
  "space_encodings =
     [[CHR 0x09], [CHR 0x0A], [CHR 0x0B], [CHR 0x0C], [CHR 0x0D], [CHR 0x20],
      [CHR 0xC2, CHR 0x85], [CHR 0xC2, CHR 0xA0],
      [CHR 0xE1, CHR 0x9A, CHR 0x80],
      [CHR 0xE2, CHR 0x80, CHR 0x80], [CHR 0xE2, CHR 0x80, CHR 0x81],
      [CHR 0xE2, CHR 0x80, CHR 0x82], [CHR 0xE2, CHR 0x80, CHR 0x83],
      [CHR 0xE2, CHR 0x80, CHR 0x84], [CHR 0xE2, CHR 0x80, CHR 0x85],
      [CHR 0xE2, CHR 0x80, CHR 0x86], [CHR 0xE2, CHR 0x80, CHR 0x87],
      [CHR 0xE2, CHR 0x80, CHR 0x88], [CHR 0xE2, CHR 0x80, CHR 0x89],
      [CHR 0xE2, CHR 0x80, CHR 0x8A],
      [CHR 0xE2, CHR 0x80, CHR 0xA8], [CHR 0xE2, CHR 0x80, CHR 0xA9],
      [CHR 0xE2, CHR 0x80, CHR 0xAF],
      [CHR 0xE2, CHR 0x81, CHR 0x9F],
      [CHR 0xE3, CHR 0x80, CHR 0x80]]"

definition space_at_front :: "string \<Rightarrow> string option" where
  "space_at_front s = find (\<lambda>e. prefix e s) space_encodings"

definition space_at_back :: "string \<Rightarrow> string option" where
  "space_at_back s = find (\<lambda>e. suffix e s) space_encodings"

lemma space_at_front_shorter:
  "space_at_front s = Some e \<Longrightarrow> length (drop (length e) s) < length s"
proof -
  assume a: "space_at_front s = Some e"
  then have "e \<in> set space_encodings" and p: "prefix e s"
    by (auto simp: space_at_front_def find_Some_iff)
  then have "e \<noteq> []" by (auto simp: space_encodings_def)
  with p show ?thesis by (cases s) (auto simp: prefix_def)
qed

lemma space_at_back_shorter:
  "space_at_back s = Some e \<Longrightarrow> length (take (length s - length e) s) < length s"
proof -
  assume a: "space_at_back s = Some e"
  then have "e \<in> set space_encodings" and p: "suffix e s"
    by (auto simp: space_at_back_def find_Some_iff)
  then have "e \<noteq> []" by (auto simp: space_encodings_def)
  with p show ?thesis by (cases s) (auto simp: suffix_def)
qed

function TrimLeft :: "string \<Rightarrow> string" where
  "TrimLeft s =
     (case space_at_front s of
        None \<Rightarrow> s
      | Some e \<Rightarrow> TrimLeft (drop (length e) s))"
  by pat_completeness auto
termination
  by (relation "measure length") (auto dest: space_at_front_shorter)

function TrimRight :: "string \<Rightarrow> string" where
  "TrimRight s =
     (case space_at_back s of
        None \<Rightarrow> s
      | Some e \<Rightarrow> TrimRight (take (length s - length e) s))"
  by pat_completeness auto
termination
  by (relation "measure length") (auto dest: space_at_back_shorter)

declare TrimLeft.simps [simp del] TrimRight.simps [simp del]

definition TrimSpace :: "string \<Rightarrow> string" where
  "TrimSpace s = TrimRight (TrimLeft s)"

section \<open>The host: file system and control binary\<close>

text \<open>
  \<open>exec.Cmd\<close>, as far as the package sets it: \<open>exec.Command(name, arg...)\<close> makes
  \<open>Args\<close> the command line \<open>name # arg\<close> (the program itself first) and leaves
  \<open>Stdin\<close> nil; \<open>Write\<close> then sets \<open>Stdin\<close> to a reader of the contents.
\<close>

record Cmd =
  Args :: "string list"
  Stdin :: "string option"

definition Command :: "string \<Rightarrow> string list \<Rightarrow> Cmd" where
  "Command name arg = \<lparr>Args = name # arg, Stdin = None\<rparr>"

text \<open>
  Every call that leaves the process is recorded, with its answer, in a trace (latest
  last). The host decides each answer from the calls made so far, so it may be any
  file system and any control binary, changing over time.
\<close>

datatype event =
    Stat_call string "goerror option"
  | ReadFile_call string "char slice" "goerror option"
  | CombinedOutput_call Cmd "char slice" "goerror option"

type_synonym trace = "event list"

record host =
  stat_answer :: "trace \<Rightarrow> string \<Rightarrow> goerror option"
  readfile_answer :: "trace \<Rightarrow> string \<Rightarrow> char slice \<times> goerror option"
  command_answer :: "trace \<Rightarrow> Cmd \<Rightarrow> char slice \<times> goerror option"

definition os_Stat :: "host \<Rightarrow> string \<Rightarrow> trace \<Rightarrow> goerror option \<times> trace" where
  "os_Stat h name tr =
     (let err = stat_answer h tr name in (err, tr @ [Stat_call name err]))"

definition ioutil_ReadFile ::
  "host \<Rightarrow> string \<Rightarrow> trace \<Rightarrow> (char slice \<times> goerror option) \<times> trace" where
  "ioutil_ReadFile h name tr =
     (let (bytes, err) = readfile_answer h tr name
      in ((bytes, err), tr @ [ReadFile_call name bytes err]))"

definition CombinedOutput ::
  "host \<Rightarrow> Cmd \<Rightarrow> trace \<Rightarrow> (char slice \<times> goerror option) \<times> trace" where
  "CombinedOutput h cmd tr =
     (let (bytes, err) = command_answer h tr cmd
      in ((bytes, err), tr @ [CombinedOutput_call cmd bytes err]))"

section \<open>Package kbfs\<close>

definition supportsFuse :: "host \<Rightarrow> trace \<Rightarrow> bool \<times> trace" where
  "supportsFuse h tr0 =
     (let (err1, tr1) = os_Stat h ''/keybase'' tr0;
          (err2, tr2) = os_Stat h ''/keybase/team'' tr1;
          (err3, tr3) = os_Stat h ''/keybase/private'' tr2;
          (err4, tr4) = os_Stat h ''/keybase/public'' tr3
      in (err1 = None \<and> err2 = None \<and> err3 = None \<and> err4 = None, tr4))"

record Operation =
  KeybaseBinaryPath :: string

definition FileExists ::
  "host \<Rightarrow> Operation \<Rightarrow> string \<Rightarrow> trace \<Rightarrow> (bool \<times> goerror option) \<times> trace" where
  "FileExists h ko filename tr0 =
     (let (fuse, tr1) = supportsFuse h tr0 in
      if fuse then
        (let (err, tr2) = os_Stat h filename tr1 in
         case err of
           None \<Rightarrow> ((True, None), tr2)
         | Some e \<Rightarrow>
             if IsNotExist e then ((False, None), tr2)
             else ((False, Some e), tr2))
      else
        (let cmd = Command (KeybaseBinaryPath ko) [''fs'', ''stat'', filename];
             ((bytes, err), tr2) = CombinedOutput h cmd tr1 in
         case err of
           None \<Rightarrow> ((True, None), tr2)
         | Some e \<Rightarrow>
             if Contains (elems bytes) ''ERROR file does not exist'' then ((False, None), tr2)
             else
               ((False,
                 Some (Errorf (''failed to stat '' @ filename @ '': ''
                   @ TrimSpace (elems bytes) @ '' ('' @ Error e @ '')''))), tr2)))"

definition Read ::
  "host \<Rightarrow> Operation \<Rightarrow> string \<Rightarrow> trace \<Rightarrow> (char slice \<times> goerror option) \<times> trace" where
  "Read h ko filename tr0 =
     (let (fuse, tr1) = supportsFuse h tr0 in
      if fuse then ioutil_ReadFile h filename tr1
      else
        (let cmd = Command (KeybaseBinaryPath ko) [''fs'', ''read'', filename];
             ((bytes, err), tr2) = CombinedOutput h cmd tr1 in
         case err of
           Some e \<Rightarrow>
             ((None,
               Some (Errorf (''failed to read '' @ filename @ '': ''
                 @ TrimSpace (elems bytes) @ '' ('' @ Error e @ '')''))), tr2)
         | None \<Rightarrow> ((bytes, None), tr2)))"

definition Delete :: "host \<Rightarrow> Operation \<Rightarrow> string \<Rightarrow> trace \<Rightarrow> goerror option \<times> trace" where
  "Delete h ko filename tr0 =
     (let cmd = Command (KeybaseBinaryPath ko) [''fs'', ''rm'', filename];
          ((bytes, err), tr1) = CombinedOutput h cmd tr0 in
      case err of
        Some e \<Rightarrow>
          (Some (Errorf (''failed to delete the file at '' @ filename @ '': ''
             @ TrimSpace (elems bytes) @ '' ('' @ Error e @ '')'')), tr1)
      | None \<Rightarrow> (None, tr1))"

text \<open>
  The end of \<open>Write\<close>, from \<open>cmd.Stdin = strings.NewReader(contents)\<close> on, which
  both branches of its \<open>if\<close> reach with the \<open>cmd\<close> they have built.
\<close>

definition Write_run ::
  "host \<Rightarrow> Cmd \<Rightarrow> string \<Rightarrow> string \<Rightarrow> trace \<Rightarrow> goerror option \<times> trace" where
  "Write_run h cmd filename contents tr0 =
     (let ((bytes, err), tr1) = CombinedOutput h (cmd\<lparr>Stdin := Some contents\<rparr>) tr0 in
      case err of
        Some e \<Rightarrow>
          (Some (Errorf (''failed to write to file at '' @ filename @ '': ''
             @ TrimSpace (elems bytes) @ '' ('' @ Error e @ '')'')), tr1)
      | None \<Rightarrow> (None, tr1))"

function Write ::
  "host \<Rightarrow> Operation \<Rightarrow> string \<Rightarrow> string \<Rightarrow> bool \<Rightarrow> trace \<Rightarrow> goerror option \<times> trace" where
  "Write h ko filename contents appendToFile tr0 =
     (if appendToFile then
        (case FileExists h ko filename tr0 of
           ((exists, err), tr1) \<Rightarrow>
             if \<not> exists \<or> err \<noteq> None then
               (case Write h ko filename [] False tr1 of
                  (err', tr2) \<Rightarrow>
                    if err' \<noteq> None then (err', tr2)
                    else
                      Write_run h
                        (Command (KeybaseBinaryPath ko) [''fs'', ''write'', ''--append'', filename])
                        filename contents tr2)
             else
               Write_run h
                 (Command (KeybaseBinaryPath ko) [''fs'', ''write'', ''--append'', filename])
                 filename contents tr1)
      else
        Write_run h (Command (KeybaseBinaryPath ko) [''fs'', ''write'', filename])
          filename contents tr0)"
  by pat_completeness auto
termination
  by (relation "measure (\<lambda>(h, ko, filename, contents, appendToFile, tr0).
        if appendToFile then 1 else 0)") auto

declare Write.simps [simp del]

text \<open>
  The loop of \<open>List\<close> over the pieces of the output: \<open>ret\<close> starts as the nil slice
  (\<open>var ret []string\<close>) and takes every piece that is not empty.
\<close>

fun List_range :: "string slice \<Rightarrow> string list \<Rightarrow> string slice" where
  "List_range ret [] = ret"
| "List_range ret (s # ss) = List_range (if s \<noteq> [] then append ret s else ret) ss"

definition List ::
  "host \<Rightarrow> Operation \<Rightarrow> string \<Rightarrow> trace \<Rightarrow> (string slice \<times> goerror option) \<times> trace" where
  "List h ko path tr0 =
     (let cmd = Command (KeybaseBinaryPath ko) [''fs'', ''ls'', ''-1'', ''--nocolor'', path];
          ((output, err), tr1) = CombinedOutput h cmd tr0 in
      case err of
        Some e \<Rightarrow>
          ((None,
            Some (Errorf (''failed to list files in /keybase/team/: ''
              @ TrimSpace (elems output) @ '' ('' @ Error e @ '')''))), tr1)
      | None \<Rightarrow> ((List_range None (Split (elems output) [CHR 0x0A]), None), tr1))"

section \<open>Vocabulary of the properties\<close>

subsection \<open>The scanner\<close>

text \<open>
  The first descriptor of the list whose name is the token: exact string equality, the
  first one wins.
\<close>

fun first_match :: "CLIArgument list \<Rightarrow> string \<Rightarrow> CLIArgument option" where
  "first_match [] t = None"
| "first_match (d # ds) t = (if Name d = t then Some d else first_match ds t)"

text \<open>
  A scan cuts the token sequence into consecutive segments: a token that matches no
  descriptor, a flag without a value, or a flag together with the token behind it, which
  it consumes as its value. \<open>scan\<close> does so in one pass from the left, and fails with
  the name of the flag when a flag that needs a value is the last token.
\<close>

datatype segment = Unmatched string | Flag CLIArgument | Flag_value CLIArgument string

fun scan :: "CLIArgument list \<Rightarrow> string list \<Rightarrow> string + segment list" where
  "scan ds [] = Inr []"
| "scan ds (t # ts) =
     (case first_match ds t of
        None \<Rightarrow> map_sum id ((#) (Unmatched t)) (scan ds ts)
      | Some d \<Rightarrow>
          if HasArgument d then
            (case ts of
               [] \<Rightarrow> Inl (Name d)
             | v # ts' \<Rightarrow> map_sum id ((#) (Flag_value d v)) (scan ds ts'))
          else map_sum id ((#) (Flag d)) (scan ds ts))"

fun tokens :: "segment \<Rightarrow> string list" where
  "tokens (Unmatched t) = [t]"
| "tokens (Flag d) = [Name d]"
| "tokens (Flag_value d v) = [Name d, v]"

fun unmatched :: "segment \<Rightarrow> string list" where
  "unmatched (Unmatched t) = [t]"
| "unmatched (Flag d) = []"
| "unmatched (Flag_value d v) = []"

fun matches :: "segment \<Rightarrow> ParsedCLIArgument list" where
  "matches (Unmatched t) = []"
| "matches (Flag d) = [\<lparr>Argument = d, Value = []\<rparr>]"
| "matches (Flag_value d v) = [\<lparr>Argument = d, Value = v\<rparr>]"

fun well_scanned :: "CLIArgument list \<Rightarrow> segment \<Rightarrow> bool" where
  "well_scanned ds (Unmatched t) = (first_match ds t = None)"
| "well_scanned ds (Flag d) = (first_match ds (Name d) = Some d \<and> \<not> HasArgument d)"
| "well_scanned ds (Flag_value d v) = (first_match ds (Name d) = Some d \<and> HasArgument d)"

subsection \<open>The file operations\<close>

text \<open>
  What a bridge call runs: the control binary, the word \<open>fs\<close>, then the words of the
  subcommand, with the given standard input (\<open>None\<close> when the call sets none).
\<close>

definition invocation :: "Operation \<Rightarrow> string list \<Rightarrow> string option \<Rightarrow> Cmd" where
  "invocation ko subcommand stdin =
     \<lparr>Args = KeybaseBinaryPath ko # ''fs'' # subcommand, Stdin = stdin\<rparr>"

text \<open>The commands a trace has spawned, in order.\<close>

fun spawned :: "trace \<Rightarrow> Cmd list" where
  "spawned [] = []"
| "spawned (CombinedOutput_call cmd bytes err # tr) = cmd # spawned tr"
| "spawned (_ # tr) = spawned tr"

text \<open>Lines put together again, with one newline between two neighbours.\<close>

fun join_lines :: "string list \<Rightarrow> string" where
  "join_lines [] = []"
| "join_lines [l] = l"
| "join_lines (l # ls) = l @ [CHR 0x0A] @ join_lines ls"

text \<open>The message of an error contains the text \<open>x\<close>; \<open>nil\<close> carries nothing.\<close>

definition carries :: "goerror option \<Rightarrow> string \<Rightarrow> bool" where
  "carries err x = (case err of None \<Rightarrow> False | Some e \<Rightarrow> sublist x (Error e))"

subsection \<open>Concrete hosts and inputs\<close>

definition enoent :: goerror where
  "enoent = GoError ''no such file or directory'' True"

definition exit_status_1 :: goerror where
  "exit_status_1 = GoError ''exit status 1'' False"

text \<open>
  A host with nothing mounted under \<open>/keybase\<close>, whose control binary answers from
  its arguments alone.
\<close>

definition bridge_host :: "(string list \<Rightarrow> char slice \<times> goerror option) \<Rightarrow> host" where
  "bridge_host binary =
     \<lparr>stat_answer = (\<lambda>tr name. Some enoent),
      readfile_answer = (\<lambda>tr name. (None, Some enoent)),
      command_answer = (\<lambda>tr cmd. binary (tl (Args cmd)))\<rparr>"

definition no_mount_probes :: trace where
  "no_mount_probes =
     [Stat_call ''/keybase'' (Some enoent), Stat_call ''/keybase/team'' (Some enoent),
      Stat_call ''/keybase/private'' (Some enoent), Stat_call ''/keybase/public'' (Some enoent)]"

text \<open>
  A host with the four probe locations and the given files under the mount; its control
  binary succeeds with no output.
\<close>

definition mounted_host :: "string list \<Rightarrow> host" where
  "mounted_host files =
     \<lparr>stat_answer = (\<lambda>tr name.
        if name \<in> set ([''/keybase'', ''/keybase/team'', ''/keybase/private'',
                          ''/keybase/public''] @ files)
        then None else Some enoent),
      readfile_answer = (\<lambda>tr name. (None, Some enoent)),
      command_answer = (\<lambda>tr cmd. (Some [], None))\<rparr>"

text \<open>A host where the mount lacks \<open>/keybase/public\<close>.\<close>

definition public_missing_host :: host where
  "public_missing_host =
     \<lparr>stat_answer = (\<lambda>tr name.
        if name \<in> set [''/keybase'', ''/keybase/team'', ''/keybase/private'']
        then None else Some enoent),
      readfile_answer = (\<lambda>tr name. (None, Some enoent)),
      command_answer = (\<lambda>tr cmd. (Some [], None))\<rparr>"

definition mount_probes :: trace where
  "mount_probes =
     [Stat_call ''/keybase'' None, Stat_call ''/keybase/team'' None,
      Stat_call ''/keybase/private'' None, Stat_call ''/keybase/public'' None]"

definition quiet_binary :: "string list \<Rightarrow> char slice \<times> goerror option" where
  "quiet_binary args = (Some [], None)"

definition broken_binary :: "string list \<Rightarrow> char slice \<times> goerror option" where
  "broken_binary args = (Some (''boom'' @ [CHR 0x0A]), Some exit_status_1)"

definition fresh_binary :: "string list \<Rightarrow> char slice \<times> goerror option" where
  "fresh_binary args =
     (if take 2 args = [''fs'', ''stat'']
      then (Some (''ERROR file does not exist'' @ [CHR 0x0A]), Some exit_status_1)
      else (Some [], None))"

definition vague_binary :: "string list \<Rightarrow> char slice \<times> goerror option" where
  "vague_binary args = (Some (''file does not exist'' @ [CHR 0x0A]), Some exit_status_1)"

definition listing_binary :: "string list \<Rightarrow> char slice \<times> goerror option" where
  "listing_binary args = (Some (''a'' @ [CHR 0x0A, CHR 0x0A] @ ''b c'' @ [CHR 0x0A]), None)"

definition blank_binary :: "string list \<Rightarrow> char slice \<times> goerror option" where
  "blank_binary args = (Some [CHR 0x0A], None)"

definition kb :: Operation where
  "kb = \<lparr>KeybaseBinaryPath = ''keybase''\<rparr>"

definition the_file :: string where
  "the_file = ''/keybase/team/t/f''"

definition team_flag :: CLIArgument where
  "team_flag = \<lparr>Name = ''--set-default-team'', HasArgument = True\<rparr>"

definition help_flag :: CLIArgument where
  "help_flag = \<lparr>Name = ''--help'', HasArgument = False\<rparr>"

section \<open>The scanner: the loops against the one-pass scan\<close>

lemma inner_loop_first_match:
  "inner_loop args i found ds =
     (case first_match ds (args ! i) of
        None \<Rightarrow> Fell_through
      | Some d \<Rightarrow>
          if HasArgument d then
            (if i + 1 = length args then
               Return_err (Errorf (''argument '' @ Name d @ '' requires a value''))
             else Continue_OUTER (i + 1) (found @ [\<lparr>Argument = d, Value = args ! (i + 1)\<rparr>]))
          else Continue_OUTER i (found @ [\<lparr>Argument = d, Value = []\<rparr>]))"
  by (induction ds) auto

text \<open>
  The loop \<open>OUTER\<close>, started at index \<open>i\<close> with what it has gathered so far, ends as
  the scan of the tokens from \<open>i\<close> on says.
\<close>

lemma OUTER_scan:
  "i \<le> length args \<Longrightarrow>
   OUTER args ds i r f =
     (case scan ds (drop i args) of
        Inl n \<Rightarrow> (None, None, Some (Errorf (''argument '' @ n @ '' requires a value'')))
      | Inr segs \<Rightarrow>
          (Some (r @ concat (map unmatched segs)), Some (f @ concat (map matches segs)), None))"
proof (induction args ds i r f rule: OUTER.induct)
  case (1 args ds i r f)
  show ?case
  proof (cases "i < length args")
    case False
    with 1(3) show ?thesis by (subst OUTER.simps) simp
  next
    case True
    then have d: "drop i args = args ! i # drop (Suc i) args"
      by (simp add: Cons_nth_drop_Suc)
    show ?thesis
    proof (cases "first_match ds (args ! i)")
      case None
      then have il: "inner_loop args i f ds = Fell_through"
        by (simp add: inner_loop_first_match)
      from 1(2)[OF True il] True
      show ?thesis
        by (subst OUTER.simps) (simp add: il d None split: sum.splits)
    next
      case (Some c)
      show ?thesis
      proof (cases "HasArgument c")
        case False
        then have il: "inner_loop args i f ds = Continue_OUTER i (f @ [\<lparr>Argument = c, Value = []\<rparr>])"
          by (simp add: inner_loop_first_match Some)
        from 1(1)[OF True il] True
        show ?thesis
          by (subst OUTER.simps) (simp add: il d Some False split: sum.splits)
      next
        case ha: True
        show ?thesis
        proof (cases "i + 1 = length args")
          case True
          then have il: "inner_loop args i f ds = Return_err (Errorf (''argument '' @ Name c @ '' requires a value''))"
            by (simp add: inner_loop_first_match Some ha)
          from True have e: "drop (Suc i) args = []" by simp
          show ?thesis
            using \<open>i < length args\<close>
            by (subst OUTER.simps) (simp add: il d Some ha e)
        next
          case False
          with \<open>i < length args\<close> have lt: "Suc i < length args" by simp
          then have d2: "drop (Suc i) args = args ! (Suc i) # drop (Suc (Suc i)) args"
            by (simp add: Cons_nth_drop_Suc)
          have il: "inner_loop args i f ds = Continue_OUTER (i + 1) (f @ [\<lparr>Argument = c, Value = args ! (i + 1)\<rparr>])"
            using False by (simp add: inner_loop_first_match Some ha)
          from 1(1)[OF \<open>i < length args\<close> il] lt
          show ?thesis
            using \<open>i < length args\<close>
            by (subst OUTER.simps) (simp add: il d d2 Some ha split: sum.splits)
        qed
      qed
    qed
  qed
qed

lemma ParseArgs_scan:
  "ParseArgs args ds =
     (case scan ds args of
        Inl n \<Rightarrow> (None, None, Some (Errorf (''argument '' @ n @ '' requires a value'')))
      | Inr segs \<Rightarrow> (Some (concat (map unmatched segs)), Some (concat (map matches segs)), None))"
  unfolding ParseArgs_def by (simp add: OUTER_scan split: sum.splits)

lemma first_match_Name: "first_match ds t = Some d \<Longrightarrow> Name d = t"
  by (induction ds) (auto split: if_splits)

lemma first_match_None: "first_match ds t = None \<longleftrightarrow> (\<forall>d\<in>set ds. Name d \<noteq> t)"
  by (induction ds) auto

lemma scan_sound:
  "scan ds ts = Inr segs \<Longrightarrow>
   concat (map tokens segs) = ts \<and> (\<forall>s\<in>set segs. well_scanned ds s)"
proof (induction ds ts arbitrary: segs rule: scan.induct)
  case (1 ds)
  then show ?case by simp
next
  case (2 ds t ts)
  show ?case
  proof (cases "first_match ds t")
    case None
    with "2.prems" obtain segs' where s: "scan ds ts = Inr segs'" "segs = Unmatched t # segs'"
      by (cases "scan ds ts") auto
    from "2.IH"(1) [OF None s(1)] s(2) None show ?thesis by simp
  next
    case (Some d)
    note nm = first_match_Name [OF Some]
    show ?thesis
    proof (cases "HasArgument d")
      case False
      with "2.prems" Some obtain segs' where s: "scan ds ts = Inr segs'" "segs = Flag d # segs'"
        by (cases "scan ds ts") auto
      from "2.IH"(3) [OF Some False s(1)] s(2) Some False nm show ?thesis by simp
    next
      case True
      with "2.prems" Some obtain v ts' where ts: "ts = v # ts'"
        by (cases ts) auto
      with "2.prems" Some True obtain segs' where
        s: "scan ds ts' = Inr segs'" "segs = Flag_value d v # segs'"
        by (cases "scan ds ts'") auto
      from "2.IH"(2) [OF Some True ts s(1)] s(2) Some True nm ts show ?thesis by simp
    qed
  qed
qed

text \<open>The cut into well scanned segments is the only one.\<close>

lemma segments_unique:
  "concat (map tokens a) = concat (map tokens b) \<Longrightarrow>
   \<forall>s\<in>set a. well_scanned ds s \<Longrightarrow> \<forall>s\<in>set b. well_scanned ds s \<Longrightarrow> a = b"
proof (induction a arbitrary: b)
  case Nil
  then show ?case by (cases b; cases "hd b") auto
next
  case (Cons x a)
  then obtain y b' where b: "b = y # b'"
    by (cases b; cases x) auto
  with Cons.prems have "x = y \<and> concat (map tokens a) = concat (map tokens b')"
    by (cases x; cases y) auto
  with Cons b show ?case by auto
qed

lemma scan_snoc:
  "scan ds (ts @ [t]) = Inl n \<longleftrightarrow>
     (\<exists>segs. scan ds ts = Inr segs) \<and> (\<exists>d. first_match ds t = Some d \<and> HasArgument d) \<and> n = t"
proof (induction ds ts rule: scan.induct)
  case (1 ds)
  then show ?case by (auto split: option.splits dest: first_match_Name)
next
  case (2 ds u us)
  show ?case
  proof (cases "first_match ds u")
    case None
    with "2.IH"(1) [OF None] show ?thesis
      by (cases "scan ds us"; cases "scan ds (us @ [t])") auto
  next
    case (Some d)
    show ?thesis
    proof (cases "HasArgument d")
      case False
      with "2.IH"(3) [OF Some False] Some show ?thesis
        by (cases "scan ds us"; cases "scan ds (us @ [t])") auto
    next
      case True
      show ?thesis
      proof (cases us)
        case Nil
        with Some True show ?thesis by simp
      next
        case (Cons v us')
        with "2.IH"(2) [OF Some True Cons] Some True show ?thesis
          by (cases "scan ds us'"; cases "scan ds (us' @ [t])") auto
      qed
    qed
  qed
qed

section \<open>Claims about the scanner\<close>

text \<open>
  Claim C7, as the code has it. The claim's part (a), "the subsequence of tokens that
  matched no descriptor", does not hold as written: a token that a flag consumes as its
  value is left out of the remaining tokens even when it matches no descriptor. Here
  \<open>foo\<close> matches no descriptor and is not returned.
\<close>

theorem ParseArgs_remaining_counterexample:
  "ParseArgs [''--set-default-team'', ''foo''] [team_flag, help_flag] =
     (Some [], Some [\<lparr>Argument = team_flag, Value = ''foo''\<rparr>], None) \<and>
   first_match [team_flag, help_flag] ''foo'' = None"
  by code_simp

text \<open>
  Claim C7, amended: when \<open>ParseArgs\<close> succeeds, the tokens are cut, in order and
  with none left over or used twice, into segments, each of them a token that matches no
  descriptor, or a flag whose first descriptor of that name needs no value, or a flag
  whose first descriptor of that name needs a value together with the next token as that
  value. The remaining arguments are the tokens of the first kind, in their order; the
  matches are the flags, in their order, each with its descriptor and its value.
\<close>

theorem ParseArgs_segments:
  assumes "ParseArgs args ds = (r, f, None)"
  shows "\<exists>segs. concat (map tokens segs) = args \<and> (\<forall>s\<in>set segs. well_scanned ds s) \<and>
           r = Some (concat (map unmatched segs)) \<and> f = Some (concat (map matches segs))"
proof (cases "scan ds args")
  case (Inl n)
  with assms show ?thesis by (simp add: ParseArgs_scan)
next
  case (Inr segs)
  with assms scan_sound [OF Inr] show ?thesis by (auto simp: ParseArgs_scan)
qed

text \<open>
  Claim C7, amended, at the arguments \<open>--set-default-team foo x --help\<close>: \<open>foo\<close>
  is the value of the first flag and \<open>x\<close> is what remains.
\<close>

theorem ParseArgs_segments_witness:
  "ParseArgs [''--set-default-team'', ''foo'', ''x'', ''--help''] [team_flag, help_flag] =
     (Some [''x''],
      Some [\<lparr>Argument = team_flag, Value = ''foo''\<rparr>, \<lparr>Argument = help_flag, Value = []\<rparr>],
      None) \<and>
   (\<exists>segs. concat (map tokens segs) = [''--set-default-team'', ''foo'', ''x'', ''--help''] \<and>
      (\<forall>s\<in>set segs. well_scanned [team_flag, help_flag] s) \<and>
      Some [''x''] = Some (concat (map unmatched segs)) \<and>
      Some [\<lparr>Argument = team_flag, Value = ''foo''\<rparr>, \<lparr>Argument = help_flag, Value = []\<rparr>] =
        Some (concat (map matches segs)))"
proof -
  have h: "ParseArgs [''--set-default-team'', ''foo'', ''x'', ''--help''] [team_flag, help_flag] =
     (Some [''x''],
      Some [\<lparr>Argument = team_flag, Value = ''foo''\<rparr>, \<lparr>Argument = help_flag, Value = []\<rparr>],
      None)"
    by code_simp
  from h ParseArgs_segments [OF h] show ?thesis by (rule conjI)
qed

text \<open>
  Claim C8, as the code has it. The claim's first half does not hold as written: the last
  token may match a descriptor that needs a value and yet be consumed as the value of the
  flag before it. Then the scan succeeds.
\<close>

theorem ParseArgs_missing_value_counterexample:
  "last [''--set-default-team'', ''--set-default-team''] = Name team_flag \<and>
   HasArgument team_flag \<and>
   ParseArgs [''--set-default-team'', ''--set-default-team''] [team_flag, help_flag] =
     (Some [], Some [\<lparr>Argument = team_flag, Value = ''--set-default-team''\<rparr>], None)"
  by code_simp

text \<open>
  Claim C8, amended: \<open>ParseArgs\<close> fails exactly when the first descriptor named as
  the last token needs a value and the scan of the tokens before the last one succeeds
  (so that the last token is not itself consumed as a value). The error then is
  "argument <last token> requires a value". In every other case the error is nil; in
  particular whenever the last token is no flag that needs a value.
\<close>

theorem ParseArgs_missing_value:
  "(snd (snd (ParseArgs args ds)) \<noteq> None) =
     (args \<noteq> [] \<and> snd (snd (ParseArgs (butlast args) ds)) = None \<and>
      (\<exists>d. first_match ds (last args) = Some d \<and> HasArgument d)) \<and>
   snd (snd (ParseArgs args ds)) \<in>
     {None, Some (Errorf (''argument '' @ last args @ '' requires a value''))}"
proof (cases args rule: rev_cases)
  case Nil
  then show ?thesis by (simp add: ParseArgs_scan)
next
  case (snoc ts t)
  show ?thesis
  proof (cases "scan ds (ts @ [t])")
    case (Inl n)
    with scan_snoc [of ds ts t n] snoc show ?thesis
      by (auto simp: ParseArgs_scan)
  next
    case (Inr segs)
    have "\<not> ((\<exists>segs. scan ds ts = Inr segs) \<and> (\<exists>d. first_match ds t = Some d \<and> HasArgument d))"
      using scan_snoc [of ds ts t t] Inr by auto
    with Inr snoc show ?thesis
      by (cases "scan ds ts") (auto simp: ParseArgs_scan)
  qed
qed

text \<open>
  Claim C8, amended, at \<open>--help --set-default-team\<close>, which fails, and at
  \<open>--set-default-team --set-default-team\<close>, which succeeds.
\<close>

theorem ParseArgs_missing_value_witness:
  "snd (snd (ParseArgs [''--help'', ''--set-default-team''] [team_flag, help_flag])) =
     Some (Errorf ''argument --set-default-team requires a value'') \<and>
   snd (snd (ParseArgs [''--set-default-team'', ''--set-default-team''] [team_flag, help_flag])) = None"
proof -
  let ?ds = "[team_flag, help_flag]"
  have a: "snd (snd (ParseArgs [''--help''] ?ds)) = None" by code_simp
  have b: "first_match ?ds ''--set-default-team'' = Some team_flag" by code_simp
  have c: "HasArgument team_flag" by code_simp
  have d: "snd (snd (ParseArgs [''--set-default-team''] ?ds)) \<noteq> None" by code_simp
  from ParseArgs_missing_value [of "[''--help'', ''--set-default-team'']" ?ds] a b c
  have 1: "snd (snd (ParseArgs [''--help'', ''--set-default-team''] ?ds)) =
     Some (Errorf ''argument --set-default-team requires a value'')"
    by auto
  from ParseArgs_missing_value [of "[''--set-default-team'', ''--set-default-team'']" ?ds] d
  have 2: "snd (snd (ParseArgs [''--set-default-team'', ''--set-default-team''] ?ds)) = None"
    by auto
  from 1 2 show ?thesis by (rule conjI)
qed

text \<open>
  Claim C10: whenever \<open>ParseArgs\<close> returns an error, the remaining arguments and the
  matches it returns are both nil.
\<close>

theorem ParseArgs_error_nil:
  "ParseArgs args ds = (r, f, Some e) \<Longrightarrow> r = None \<and> f = None"
  by (simp add: ParseArgs_scan split: sum.splits)

text \<open>
  Claim C10 at \<open>--help --set-default-team\<close>: the flag that needs a value is the last
  token, and nothing of the scan so far is returned along with the error.
\<close>

theorem ParseArgs_error_nil_witness:
  "ParseArgs [''--help'', ''--set-default-team''] [team_flag, help_flag] =
     (None, None, Some (Errorf ''argument --set-default-team requires a value''))"
proof -
  have e: "snd (snd (ParseArgs [''--help'', ''--set-default-team''] [team_flag, help_flag])) =
      Some (Errorf ''argument --set-default-team requires a value'')"
    by code_simp
  then have "ParseArgs [''--help'', ''--set-default-team''] [team_flag, help_flag] =
      (fst (ParseArgs [''--help'', ''--set-default-team''] [team_flag, help_flag]),
       fst (snd (ParseArgs [''--help'', ''--set-default-team''] [team_flag, help_flag])),
       Some (Errorf ''argument --set-default-team requires a value''))"
    by (metis prod.collapse)
  from ParseArgs_error_nil [OF this] e show ?thesis
    by (metis prod.collapse)
qed

section \<open>The file operations: traces, messages, lines\<close>

lemma spawned_append [simp]: "spawned (a @ b) = spawned a @ spawned b"
  by (induction a rule: spawned.induct) auto

lemma Contains_sublist: "Contains s x \<longleftrightarrow> sublist x s"
  unfolding Contains_def
proof (induction s)
  case Nil
  then show ?case by simp
next
  case (Cons c s)
  then show ?case by (auto simp: sublist_Cons_right)
qed

lemma supportsFuse_spawned: "supportsFuse h tr = (b, tr') \<Longrightarrow> spawned tr' = spawned tr"
  by (auto simp: supportsFuse_def os_Stat_def Let_def)

lemma Write_run_spawned [simp]:
  "spawned (snd (Write_run h cmd P C tr)) = spawned tr @ [cmd\<lparr>Stdin := Some C\<rparr>]"
  by (simp add: Write_run_def CombinedOutput_def Let_def split: prod.splits option.splits)

lemma FileExists_spawned:
  "spawned (snd (FileExists h ko P tr)) =
     spawned tr @ (if fst (supportsFuse h tr) then [] else [invocation ko [''stat'', P] None])"
  by (auto simp: FileExists_def CombinedOutput_def os_Stat_def Let_def invocation_def Command_def
      split: prod.splits option.splits dest: supportsFuse_spawned)

lemma Read_spawned:
  "spawned (snd (Read h ko P tr)) =
     spawned tr @ (if fst (supportsFuse h tr) then [] else [invocation ko [''read'', P] None])"
  by (auto simp: Read_def CombinedOutput_def ioutil_ReadFile_def Let_def invocation_def Command_def
      split: prod.splits option.splits dest: supportsFuse_spawned)

lemma Delete_spawned:
  "spawned (snd (Delete h ko P tr)) = spawned tr @ [invocation ko [''rm'', P] None]"
  by (simp add: Delete_def CombinedOutput_def Let_def invocation_def Command_def
      split: prod.splits option.splits)

lemma List_spawned:
  "spawned (snd (List h ko P tr)) =
     spawned tr @ [invocation ko [''ls'', ''-1'', ''--nocolor'', P] None]"
  by (simp add: List_def CombinedOutput_def Let_def invocation_def Command_def
      split: prod.splits option.splits)

lemma Write_overwrite_spawned:
  "spawned (snd (Write h ko P C False tr)) = spawned tr @ [invocation ko [''write'', P] (Some C)]"
  by (simp add: Write.simps invocation_def Command_def)

lemma Write_append_spawned:
  "\<exists>cs. spawned (snd (Write h ko P C True tr)) = spawned tr @ cs \<and>
     subseq cs [invocation ko [''stat'', P] None, invocation ko [''write'', P] (Some []),
                invocation ko [''write'', ''--append'', P] (Some C)]"
proof -
  obtain ex e tr1 where fe: "FileExists h ko P tr = ((ex, e), tr1)"
    by (metis prod.exhaust)
  obtain ce tr2 where cr: "Write h ko P [] False tr1 = (ce, tr2)"
    by (metis prod.exhaust)
  from FileExists_spawned [of h ko P tr] fe
  have s1: "spawned tr1 = spawned tr @ (if fst (supportsFuse h tr) then [] else [invocation ko [''stat'', P] None])"
    by simp
  from Write_overwrite_spawned [of h ko P "[]" tr1] cr
  have s2: "spawned tr2 = spawned tr1 @ [invocation ko [''write'', P] (Some [])]" by simp
  show ?thesis
    by (subst Write.simps) (auto simp: fe cr s1 s2 invocation_def Command_def)
qed

lemma Write_run_trace:
  "Write_run h cmd P C tr = (r, tr') \<Longrightarrow>
   \<exists>bytes err. tr' = tr @ [CombinedOutput_call (cmd\<lparr>Stdin := Some C\<rparr>) bytes err] \<and>
     (r = None \<longleftrightarrow> err = None)"
  by (auto simp: Write_run_def CombinedOutput_def Let_def split: prod.splits option.splits)

lemma FileExists_trace:
  "FileExists h ko P tr0 = (x, tr1) \<Longrightarrow>
   \<exists>evs. tr1 = tr0 @ evs \<and> set (spawned evs) \<subseteq> {invocation ko [''stat'', P] None}"
  by (auto simp: FileExists_def supportsFuse_def os_Stat_def CombinedOutput_def Let_def
      invocation_def Command_def split: prod.splits option.splits if_splits)

lemma carries_Errorf1: "carries (Some (Errorf (a @ x @ b))) x"
  by (auto simp: carries_def Errorf_def sublist_def)
lemma carries_Errorf2: "carries (Some (Errorf (a @ p @ b @ x @ c))) x"
  using carries_Errorf1 [of "a @ p @ b" x c] by simp
lemma carries_Errorf3: "carries (Some (Errorf (a @ p @ b @ q @ c @ x @ d))) x"
  using carries_Errorf1 [of "a @ p @ b @ q @ c" x d] by simp

lemma Index_single_None: "Index s [c] = None \<Longrightarrow> c \<notin> set s"
  by (induction s) (auto split: if_splits)

lemma Index_single_Some:
  "Index s [c] = Some m \<Longrightarrow> s = take m s @ [c] @ drop (m + 1) s \<and> c \<notin> set (take m s)"
proof (induction s arbitrary: m)
  case Nil
  then show ?case by simp
next
  case (Cons a s)
  show ?case
  proof (cases "a = c")
    case True
    with Cons.prems show ?thesis by simp
  next
    case False
    with Cons.prems obtain k where k: "Index s [c] = Some k" "m = Suc k"
      by auto
    from Cons.IH [OF k(1)] False k(2) show ?thesis by simp
  qed
qed

lemma Split_not_Nil: "Split s sep \<noteq> []"
  by (subst Split.simps) (simp split: option.splits)

lemma join_lines_Cons: "ls \<noteq> [] \<Longrightarrow> join_lines (l # ls) = l @ [CHR 0x0A] @ join_lines ls"
  by (cases ls) auto

lemma Split_newline:
  "join_lines (Split s [CHR 0x0A]) = s \<and> (\<forall>l\<in>set (Split s [CHR 0x0A]). CHR 0x0A \<notin> set l)"
proof (induction s "[CHR 0x0A]" rule: Split.induct)
  case (1 s)
  show ?case
  proof (cases "Index s [CHR 0x0A]")
    case None
    then show ?thesis
      by (subst (1 2) Split.simps) (simp add: Index_single_None)
  next
    case (Some m)
    from Index_single_Some [OF Some]
    have s: "s = take m s @ [CHR 0x0A] @ drop (m + 1) s" and n: "CHR 0x0A \<notin> set (take m s)"
      by blast+
    from 1 [OF Some] have ih:
      "join_lines (Split (drop (m + 1) s) [CHR 0x0A]) = drop (m + 1) s"
      "\<forall>l\<in>set (Split (drop (m + 1) s) [CHR 0x0A]). CHR 0x0A \<notin> set l"
      by simp_all
    have sp: "Split s [CHR 0x0A] = take m s # Split (drop (m + 1) s) [CHR 0x0A]"
      by (subst Split.simps) (simp add: Some)
    have "join_lines (Split s [CHR 0x0A]) = take m s @ [CHR 0x0A] @ drop (m + 1) s"
      by (simp only: sp join_lines_Cons [OF Split_not_Nil] ih(1))
    with s have j: "join_lines (Split s [CHR 0x0A]) = s" by simp
    from n ih(2) have "\<forall>l\<in>set (Split s [CHR 0x0A]). CHR 0x0A \<notin> set l"
      by (simp only: sp) simp
    with j show ?thesis by blast
  qed
qed

lemma List_range_filter:
  "List_range ret ps =
     (if filter (\<lambda>l. l \<noteq> []) ps = [] then ret
      else Some (elems ret @ filter (\<lambda>l. l \<noteq> []) ps))"
  by (induction ps arbitrary: ret) (auto simp: append_def)

text \<open>
  The failures of \<open>Read\<close>, \<open>Delete\<close> and \<open>Write\<close> on the bridge: the message
  holds the file name, the trimmed output and the text of the error of the call.
\<close>

lemma Read_failure_carries:
  assumes "supportsFuse h tr = (False, tr1)"
      and "command_answer h tr1 (invocation ko [''read'', P] None) = (bytes, Some e)"
  shows "fst (fst (Read h ko P tr)) = None \<and>
         carries (snd (fst (Read h ko P tr))) P \<and>
         carries (snd (fst (Read h ko P tr))) (TrimSpace (elems bytes)) \<and>
         carries (snd (fst (Read h ko P tr))) (Error e)"
proof -
  from assms have r: "fst (Read h ko P tr) =
      (None, Some (Errorf (''failed to read '' @ P @ '': ''
         @ TrimSpace (elems bytes) @ '' ('' @ Error e @ '')'')))"
    by (simp add: Read_def CombinedOutput_def Let_def invocation_def Command_def)
  show ?thesis
    by (simp only: r fst_conv snd_conv carries_Errorf1 carries_Errorf2 carries_Errorf3)
qed

lemma Delete_failure_carries:
  assumes "command_answer h tr (invocation ko [''rm'', P] None) = (bytes, Some e)"
  shows "carries (fst (Delete h ko P tr)) P \<and>
         carries (fst (Delete h ko P tr)) (TrimSpace (elems bytes)) \<and>
         carries (fst (Delete h ko P tr)) (Error e)"
proof -
  from assms have r: "fst (Delete h ko P tr) =
      Some (Errorf (''failed to delete the file at '' @ P @ '': ''
         @ TrimSpace (elems bytes) @ '' ('' @ Error e @ '')''))"
    by (simp add: Delete_def CombinedOutput_def Let_def invocation_def Command_def)
  show ?thesis
    by (simp only: r carries_Errorf1 carries_Errorf2 carries_Errorf3)
qed

lemma Write_failure_carries:
  assumes "command_answer h tr (invocation ko [''write'', P] (Some C)) = (bytes, Some e)"
  shows "carries (fst (Write h ko P C False tr)) P \<and>
         carries (fst (Write h ko P C False tr)) (TrimSpace (elems bytes)) \<and>
         carries (fst (Write h ko P C False tr)) (Error e)"
proof -
  from assms have r: "fst (Write h ko P C False tr) =
      Some (Errorf (''failed to write to file at '' @ P @ '': ''
         @ TrimSpace (elems bytes) @ '' ('' @ Error e @ '')''))"
    by (simp add: Write.simps Write_run_def CombinedOutput_def Let_def invocation_def
        Command_def)
  show ?thesis
    by (simp only: r carries_Errorf1 carries_Errorf2 carries_Errorf3)
qed

text \<open>
  The failure of \<open>List\<close>: the message holds the fixed text \<open>/keybase/team/\<close> where
  the other operations hold the path.
\<close>

lemma List_failure_message:
  assumes "command_answer h tr (invocation ko [''ls'', ''-1'', ''--nocolor'', P] None) = (bytes, Some e)"
  shows "fst (List h ko P tr) =
      (None, Some (Errorf (''failed to list files in /keybase/team/: ''
         @ TrimSpace (elems bytes) @ '' ('' @ Error e @ '')'')))"
  using assms by (simp add: List_def CombinedOutput_def Let_def invocation_def Command_def)

section \<open>Claims about the file operations\<close>

text \<open>
  Claim C1: \<open>Write\<close> with \<open>appendToFile\<close> first runs \<open>FileExists\<close> (its calls
  open the trace of \<open>Write\<close>, and the append command is not among them). If the file
  exists and the check gave no error, the one further call is the command
  \<open>fs write --append P\<close> with the contents on standard input. Otherwise the next call is
  the creation, \<open>fs write P\<close> with empty standard input; if the creation returns an
  error, \<open>Write\<close> returns that error, the trace ends with the creation and the append
  command has not been run; if it returns none, the append command follows as the last
  call.
\<close>

theorem Write_append_prerequisite:
  assumes fe: "FileExists h ko P tr0 = ((ex, e), tr1)"
      and cr: "Write h ko P [] False tr1 = (ce, tr2)"
      and wr: "Write h ko P C True tr0 = (r, tr')"
  shows "prefix tr0 tr1 \<and> prefix tr1 tr' \<and>
         Args (invocation ko [''write'', ''--append'', P] (Some C))
           \<notin> set (map Args (spawned (drop (length tr0) tr1))) \<and>
         (if ex \<and> e = None then
            (\<exists>bytes err. tr' = tr1 @
               [CombinedOutput_call (invocation ko [''write'', ''--append'', P] (Some C)) bytes err])
          else
            (\<exists>bytes err. tr2 = tr1 @
               [CombinedOutput_call (invocation ko [''write'', P] (Some [])) bytes err]) \<and>
            (if ce \<noteq> None then
               r = ce \<and> tr' = tr2 \<and>
               Args (invocation ko [''write'', ''--append'', P] (Some C))
                 \<notin> set (map Args (spawned (drop (length tr0) tr')))
             else
               (\<exists>bytes err. tr' = tr2 @
                  [CombinedOutput_call (invocation ko [''write'', ''--append'', P] (Some C)) bytes err])))"
proof -
  let ?app = "Command (KeybaseBinaryPath ko) [''fs'', ''write'', ''--append'', P]"
  have app: "?app\<lparr>Stdin := Some C\<rparr> = invocation ko [''write'', ''--append'', P] (Some C)"
    by (simp add: Command_def invocation_def)
  from FileExists_trace [OF fe] obtain evs where
    evs: "tr1 = tr0 @ evs" "set (spawned evs) \<subseteq> {invocation ko [''stat'', P] None}"
    by blast
  have na: "Args (invocation ko [''write'', ''--append'', P] (Some C))
           \<notin> set (map Args (spawned (drop (length tr0) tr1)))"
    using evs by (auto simp: invocation_def)
  from cr have "Write_run h (Command (KeybaseBinaryPath ko) [''fs'', ''write'', P]) P [] tr1 = (ce, tr2)"
    by (simp add: Write.simps)
  from Write_run_trace [OF this] obtain cb cerr where
    c: "tr2 = tr1 @ [CombinedOutput_call (invocation ko [''write'', P] (Some [])) cb cerr]"
    by (auto simp: Command_def invocation_def)
  show ?thesis
  proof (cases "ex \<and> e = None")
    case True
    with wr fe have "Write_run h ?app P C tr1 = (r, tr')"
      by (subst (asm) Write.simps) auto
    from Write_run_trace [OF this] True evs na show ?thesis
      by (auto simp: app)
  next
    case False
    show ?thesis
    proof (cases "ce = None")
      case True
      with wr fe cr False have "Write_run h ?app P C tr2 = (r, tr')"
        by (subst (asm) Write.simps) auto
      from Write_run_trace [OF this] True False evs na c show ?thesis
        by (auto simp: app)
    next
      case ne: False
      with wr fe cr False have "r = ce" "tr' = tr2"
        by (subst (asm) Write.simps, auto)+
      with ne False evs na c show ?thesis
        by (auto simp: invocation_def)
    qed
  qed
qed

text \<open>
  Claim C1 on a host whose control binary fails every call: the existence check fails,
  the creation fails, its error comes back, and no append command has been run.
\<close>

theorem Write_append_prerequisite_witness:
  "Write (bridge_host broken_binary) kb the_file ''x'' True [] =
     (Some (Errorf ''failed to write to file at /keybase/team/t/f: boom (exit status 1)''),
      no_mount_probes @
      [CombinedOutput_call (invocation kb [''stat'', the_file] None)
         (Some (''boom'' @ [CHR 0x0A])) (Some exit_status_1),
       CombinedOutput_call (invocation kb [''write'', the_file] (Some []))
         (Some (''boom'' @ [CHR 0x0A])) (Some exit_status_1)]) \<and>
   [''keybase'', ''fs'', ''write'', ''--append'', the_file]
     \<notin> set (map Args (spawned (snd (Write (bridge_host broken_binary) kb the_file ''x'' True []))))"
proof -
  let ?h = "bridge_host broken_binary"
  let ?tr1 = "no_mount_probes @
      [CombinedOutput_call (invocation kb [''stat'', the_file] None)
         (Some (''boom'' @ [CHR 0x0A])) (Some exit_status_1)]"
  let ?tr2 = "?tr1 @ [CombinedOutput_call (invocation kb [''write'', the_file] (Some []))
         (Some (''boom'' @ [CHR 0x0A])) (Some exit_status_1)]"
  let ?e = "Some (Errorf ''failed to write to file at /keybase/team/t/f: boom (exit status 1)'')"
  have fe: "FileExists ?h kb the_file [] =
      ((False, Some (Errorf ''failed to stat /keybase/team/t/f: boom (exit status 1)'')), ?tr1)"
    by code_simp
  have cr: "Write ?h kb the_file [] False ?tr1 = (?e, ?tr2)"
    by code_simp
  have wr: "Write ?h kb the_file ''x'' True [] = (?e, ?tr2)"
    by code_simp
  from Write_append_prerequisite [OF fe cr wr]
  have "Args (invocation kb [''write'', ''--append'', the_file] (Some ''x''))
          \<notin> set (map Args (spawned (drop (length ([]::trace)) ?tr2)))"
    by simp
  then have "[''keybase'', ''fs'', ''write'', ''--append'', the_file]
          \<notin> set (map Args (spawned ?tr2))"
    by (simp add: invocation_def kb_def)
  with wr show ?thesis by simp
qed

text \<open>
  Claim C2, as the code has it. The claim's second case does not hold as written: the
  text the code looks for is \<open>ERROR file does not exist\<close>. An output that contains
  \<open>file does not exist\<close> without \<open>ERROR\<close> before it is a failure like any other, and
  \<open>FileExists\<close> returns an error.
\<close>

theorem FileExists_bridge_counterexample:
  "Contains (''file does not exist'' @ [CHR 0x0A]) ''file does not exist'' \<and>
   FileExists (bridge_host vague_binary) kb the_file [] =
     ((False, Some (Errorf ''failed to stat /keybase/team/t/f: file does not exist (exit status 1)'')),
      no_mount_probes @
      [CombinedOutput_call (invocation kb [''stat'', the_file] None)
         (Some (''file does not exist'' @ [CHR 0x0A])) (Some exit_status_1)])"
  by code_simp

text \<open>
  Claim C2, amended: on the bridge backend (the mount probe says no), \<open>FileExists\<close>
  returns \<open>(true, nil)\<close> when the \<open>stat\<close> call succeeds; \<open>(false, nil)\<close> when
  it fails and its combined output contains \<open>ERROR file does not exist\<close>; and for any
  other failure \<open>false\<close> with an error whose message contains the path, the trimmed
  combined output and the text of the error of the call.
\<close>

theorem FileExists_bridge:
  assumes "supportsFuse h tr = (False, tr1)"
      and "command_answer h tr1 (invocation ko [''stat'', P] None) = (bytes, err)"
  shows "(err = None \<longrightarrow> fst (FileExists h ko P tr) = (True, None)) \<and>
         (err \<noteq> None \<and> sublist ''ERROR file does not exist'' (elems bytes) \<longrightarrow>
            fst (FileExists h ko P tr) = (False, None)) \<and>
         (err \<noteq> None \<and> \<not> sublist ''ERROR file does not exist'' (elems bytes) \<longrightarrow>
            fst (fst (FileExists h ko P tr)) = False \<and>
            carries (snd (fst (FileExists h ko P tr))) P \<and>
            carries (snd (fst (FileExists h ko P tr))) (TrimSpace (elems bytes)) \<and>
            carries (snd (fst (FileExists h ko P tr))) (Error (the err)))"
proof (cases err)
  case None
  with assms show ?thesis
    by (simp add: FileExists_def CombinedOutput_def Let_def invocation_def Command_def)
next
  case (Some e)
  show ?thesis
  proof (cases "sublist ''ERROR file does not exist'' (elems bytes)")
    case True
    with assms Some show ?thesis
      by (simp add: FileExists_def CombinedOutput_def Let_def invocation_def Command_def
          Contains_sublist)
  next
    case False
    with assms Some have r: "fst (FileExists h ko P tr) =
        (False, Some (Errorf (''failed to stat '' @ P @ '': ''
           @ TrimSpace (elems bytes) @ '' ('' @ Error e @ '')'')))"
      by (simp add: FileExists_def CombinedOutput_def Let_def invocation_def Command_def
          Contains_sublist)
    show ?thesis
      using False Some
      by (simp only: r fst_conv snd_conv carries_Errorf1 carries_Errorf2 carries_Errorf3
          option.sel) simp
  qed
qed

text \<open>
  Claim C2, amended, on three control binaries: one that succeeds, one that reports the
  missing file, one that fails otherwise.
\<close>

theorem FileExists_bridge_witness:
  "fst (FileExists (bridge_host quiet_binary) kb the_file []) = (True, None) \<and>
   fst (FileExists (bridge_host fresh_binary) kb the_file []) = (False, None) \<and>
   fst (fst (FileExists (bridge_host broken_binary) kb the_file [])) = False \<and>
   carries (snd (fst (FileExists (bridge_host broken_binary) kb the_file []))) the_file \<and>
   carries (snd (fst (FileExists (bridge_host broken_binary) kb the_file []))) ''boom'' \<and>
   carries (snd (fst (FileExists (bridge_host broken_binary) kb the_file []))) ''exit status 1''"
proof -
  have sf: "supportsFuse (bridge_host b) [] = (False, no_mount_probes)" for b
    by (simp add: supportsFuse_def os_Stat_def bridge_host_def no_mount_probes_def Let_def)
  have q: "command_answer (bridge_host quiet_binary) no_mount_probes
             (invocation kb [''stat'', the_file] None) = (Some [], None)"
    by code_simp
  have f: "command_answer (bridge_host fresh_binary) no_mount_probes
             (invocation kb [''stat'', the_file] None) =
           (Some (''ERROR file does not exist'' @ [CHR 0x0A]), Some exit_status_1)"
    by code_simp
  have b: "command_answer (bridge_host broken_binary) no_mount_probes
             (invocation kb [''stat'', the_file] None) =
           (Some (''boom'' @ [CHR 0x0A]), Some exit_status_1)"
    by code_simp
  have fs: "sublist ''ERROR file does not exist'' (elems (Some (''ERROR file does not exist'' @ [CHR 0x0A])))"
    by code_simp
  have bs: "\<not> sublist ''ERROR file does not exist'' (elems (Some (''boom'' @ [CHR 0x0A])))"
    by code_simp
  have tr: "TrimSpace (elems (Some (''boom'' @ [CHR 0x0A]))) = ''boom''"
    by code_simp
  have er: "Error (the (Some exit_status_1)) = ''exit status 1''"
    by code_simp
  from FileExists_bridge [OF sf q] have 1:
    "fst (FileExists (bridge_host quiet_binary) kb the_file []) = (True, None)"
    by simp
  from FileExists_bridge [OF sf f] fs have 2:
    "fst (FileExists (bridge_host fresh_binary) kb the_file []) = (False, None)"
    by simp
  from FileExists_bridge [OF sf b] bs have 3:
    "fst (fst (FileExists (bridge_host broken_binary) kb the_file [])) = False \<and>
     carries (snd (fst (FileExists (bridge_host broken_binary) kb the_file []))) the_file \<and>
     carries (snd (fst (FileExists (bridge_host broken_binary) kb the_file [])))
       (TrimSpace (elems (Some (''boom'' @ [CHR 0x0A])))) \<and>
     carries (snd (fst (FileExists (bridge_host broken_binary) kb the_file [])))
       (Error (the (Some exit_status_1)))"
    by blast
  from 1 2 3 show ?thesis unfolding tr er by blast
qed

text \<open>
  Claim C3: \<open>supportsFuse\<close> makes exactly four calls of \<open>os.Stat\<close>, on
  \<open>/keybase\<close>, \<open>/keybase/team\<close>, \<open>/keybase/private\<close> and \<open>/keybase/public\<close>
  in this order; the results \<open>e1\<close> to \<open>e4\<close> are what the host answers to these four
  probes, each at the moment it is made; and \<open>supportsFuse\<close> returns true if and only
  if the host answered all four without an error. If the host answers any one of them
  with an error, it returns false.
\<close>

theorem supportsFuse_all_four:
  "supportsFuse h tr = (b, tr') \<Longrightarrow>
   \<exists>e1 e2 e3 e4.
     e1 = stat_answer h tr ''/keybase'' \<and>
     e2 = stat_answer h (tr @ [Stat_call ''/keybase'' e1]) ''/keybase/team'' \<and>
     e3 = stat_answer h
            (tr @ [Stat_call ''/keybase'' e1, Stat_call ''/keybase/team'' e2])
            ''/keybase/private'' \<and>
     e4 = stat_answer h
            (tr @ [Stat_call ''/keybase'' e1, Stat_call ''/keybase/team'' e2,
                   Stat_call ''/keybase/private'' e3])
            ''/keybase/public'' \<and>
     tr' = tr @ [Stat_call ''/keybase'' e1, Stat_call ''/keybase/team'' e2,
                 Stat_call ''/keybase/private'' e3, Stat_call ''/keybase/public'' e4] \<and>
     (b \<longleftrightarrow> e1 = None \<and> e2 = None \<and> e3 = None \<and> e4 = None)"
  by (auto simp: supportsFuse_def os_Stat_def Let_def)

text \<open>
  Claim C3 on three hosts: with nothing mounted (four failed probes, and the answer
  no); with the mount (four probes without error, and the answer yes); and with
  everything but \<open>/keybase/public\<close> (one failed probe, and the answer no).
\<close>

theorem supportsFuse_all_four_witness:
  "(fst (supportsFuse (bridge_host quiet_binary) []) = False \<and>
    stat_answer (bridge_host quiet_binary) [] ''/keybase'' \<noteq> None) \<and>
   (fst (supportsFuse (mounted_host []) []) = True \<and>
    snd (supportsFuse (mounted_host []) []) = mount_probes) \<and>
   (fst (supportsFuse public_missing_host []) = False \<and>
    snd (supportsFuse public_missing_host []) =
      [Stat_call ''/keybase'' None, Stat_call ''/keybase/team'' None,
       Stat_call ''/keybase/private'' None, Stat_call ''/keybase/public'' (Some enoent)])"
proof -
  have h: "supportsFuse (bridge_host quiet_binary) [] =
      (fst (supportsFuse (bridge_host quiet_binary) []),
       snd (supportsFuse (bridge_host quiet_binary) []))"
    by simp
  have m: "supportsFuse (mounted_host []) [] =
      (fst (supportsFuse (mounted_host []) []), snd (supportsFuse (mounted_host []) []))"
    by simp
  have p: "supportsFuse public_missing_host [] =
      (fst (supportsFuse public_missing_host []), snd (supportsFuse public_missing_host []))"
    by simp
  have hs: "stat_answer (bridge_host quiet_binary) tr name = Some enoent" for tr name
    by (simp add: bridge_host_def)
  have ms: "stat_answer (mounted_host []) tr name =
      (if name \<in> {''/keybase'', ''/keybase/team'', ''/keybase/private'', ''/keybase/public''}
       then None else Some enoent)" for tr name
    by (simp add: mounted_host_def)
  have ps: "stat_answer public_missing_host tr name =
      (if name \<in> {''/keybase'', ''/keybase/team'', ''/keybase/private''}
       then None else Some enoent)" for tr name
    by (simp add: public_missing_host_def)
  from supportsFuse_all_four [OF h] have 1:
    "fst (supportsFuse (bridge_host quiet_binary) []) = False \<and>
     stat_answer (bridge_host quiet_binary) [] ''/keybase'' \<noteq> None"
    by (auto simp: hs)
  from supportsFuse_all_four [OF m] have 2:
    "fst (supportsFuse (mounted_host []) []) = True \<and>
     snd (supportsFuse (mounted_host []) []) = mount_probes"
    by (auto simp: ms mount_probes_def)
  from supportsFuse_all_four [OF p] have 3:
    "fst (supportsFuse public_missing_host []) = False \<and>
     snd (supportsFuse public_missing_host []) =
      [Stat_call ''/keybase'' None, Stat_call ''/keybase/team'' None,
       Stat_call ''/keybase/private'' None, Stat_call ''/keybase/public'' (Some enoent)]"
    by (auto simp: ps)
  from 1 2 3 show ?thesis by blast
qed

text \<open>
  Claim C4: when the \<open>ls\<close> call succeeds, the combined output is its lines joined by
  newlines, no line containing a newline, and \<open>List\<close> returns the lines that are not
  empty, in their order, with a nil error; when there is no such line it returns the nil
  slice.
\<close>

theorem List_lines:
  assumes "command_answer h tr (invocation ko [''ls'', ''-1'', ''--nocolor'', P] None) = (output, None)"
  shows "\<exists>pieces. join_lines pieces = elems output \<and> (\<forall>l\<in>set pieces. CHR 0x0A \<notin> set l) \<and>
           fst (List h ko P tr) =
             (if filter (\<lambda>l. l \<noteq> []) pieces = [] then None
              else Some (filter (\<lambda>l. l \<noteq> []) pieces), None)"
proof -
  let ?ps = "Split (elems output) [CHR 0x0A]"
  have "fst (List h ko P tr) = (List_range None ?ps, None)"
    using assms by (simp add: List_def CombinedOutput_def Let_def invocation_def Command_def)
  then have "fst (List h ko P tr) =
             (if filter (\<lambda>l. l \<noteq> []) ?ps = [] then None
              else Some (filter (\<lambda>l. l \<noteq> []) ?ps), None)"
    by (simp add: List_range_filter)
  with Split_newline [of "elems output"] show ?thesis by blast
qed

text \<open>
  Claim C4 on the output \<open>a\<close>, two newlines, \<open>b c\<close>, newline, which lists
  \<open>a\<close> and \<open>b c\<close>; and the listing of an output that is one newline, which is the
  nil slice.
\<close>

theorem List_lines_witness:
  "command_answer (bridge_host listing_binary) []
     (invocation kb [''ls'', ''-1'', ''--nocolor'', ''/keybase/team/t''] None) =
     (Some (''a'' @ [CHR 0x0A, CHR 0x0A] @ ''b c'' @ [CHR 0x0A]), None) \<and>
   (\<exists>pieces. join_lines pieces = elems (Some (''a'' @ [CHR 0x0A, CHR 0x0A] @ ''b c'' @ [CHR 0x0A])) \<and>
      (\<forall>l\<in>set pieces. CHR 0x0A \<notin> set l) \<and>
      fst (List (bridge_host listing_binary) kb ''/keybase/team/t'' []) =
        (if filter (\<lambda>l. l \<noteq> []) pieces = [] then None
         else Some (filter (\<lambda>l. l \<noteq> []) pieces), None)) \<and>
   fst (List (bridge_host listing_binary) kb ''/keybase/team/t'' []) =
     (Some [''a'', ''b c''], None) \<and>
   fst (List (bridge_host blank_binary) kb ''/keybase/team/t'' []) = (None, None)"
proof -
  have h: "command_answer (bridge_host listing_binary) []
     (invocation kb [''ls'', ''-1'', ''--nocolor'', ''/keybase/team/t''] None) =
     (Some (''a'' @ [CHR 0x0A, CHR 0x0A] @ ''b c'' @ [CHR 0x0A]), None)"
    by code_simp
  have l: "fst (List (bridge_host listing_binary) kb ''/keybase/team/t'' []) =
     (Some [''a'', ''b c''], None)"
    by code_simp
  have n: "fst (List (bridge_host blank_binary) kb ''/keybase/team/t'' []) = (None, None)"
    by code_simp
  from h List_lines [OF h] l n show ?thesis by (intro conjI)
qed

text \<open>
  Claim C5 fails for \<open>List\<close>: asked for \<open>/keybase/private/alice\<close> on a control
  binary that fails, it returns an error whose message names \<open>/keybase/team/\<close> and
  does not contain the path asked for.
\<close>

theorem List_error_omits_path:
  "fst (List (bridge_host broken_binary) kb ''/keybase/private/alice'' []) =
     (None, Some (Errorf ''failed to list files in /keybase/team/: boom (exit status 1)'')) \<and>
   \<not> carries (snd (fst (List (bridge_host broken_binary) kb ''/keybase/private/alice'' [])))
        ''/keybase/private/alice''"
  by code_simp

text \<open>
  Claim C6, as the code has it. The claim's argument lists do not hold as written: every
  call passes the word \<open>fs\<close> before the subcommand. \<open>Delete\<close> runs the control
  binary with \<open>fs rm P\<close>, not with \<open>rm P\<close>.
\<close>

theorem bridge_arguments_counterexample:
  "map Args (spawned (snd (Delete (bridge_host quiet_binary) kb the_file []))) =
     [[''keybase'', ''fs'', ''rm'', the_file]] \<and>
   map Args (spawned (snd (Delete (bridge_host quiet_binary) kb the_file []))) \<noteq>
     [[''keybase'', ''rm'', the_file]]"
  by code_simp

text \<open>
  Claim C6, amended: every command an operation spawns is the control binary with the
  word \<open>fs\<close> followed by exactly the words of its subcommand: \<open>stat P\<close> for
  \<open>FileExists\<close> and \<open>read P\<close> for \<open>Read\<close> (neither spawns anything when the
  mount is there), \<open>rm P\<close> for \<open>Delete\<close>, \<open>write P\<close> with the contents on
  standard input for \<open>Write\<close> without append, \<open>ls -1 --nocolor P\<close> for \<open>List\<close>;
  \<open>Write\<close> with append spawns, in this order and each at most once, \<open>stat P\<close>,
  \<open>write P\<close> with empty standard input, and \<open>write --append P\<close> with the contents
  on standard input. Only the writes set a standard input.
\<close>

theorem bridge_arguments:
  "spawned (snd (FileExists h ko P tr)) =
     spawned tr @ (if fst (supportsFuse h tr) then [] else [invocation ko [''stat'', P] None]) \<and>
   spawned (snd (Read h ko P tr)) =
     spawned tr @ (if fst (supportsFuse h tr) then [] else [invocation ko [''read'', P] None]) \<and>
   spawned (snd (Delete h ko P tr)) = spawned tr @ [invocation ko [''rm'', P] None] \<and>
   spawned (snd (Write h ko P C False tr)) =
     spawned tr @ [invocation ko [''write'', P] (Some C)] \<and>
   (\<exists>cs. spawned (snd (Write h ko P C True tr)) = spawned tr @ cs \<and>
      subseq cs [invocation ko [''stat'', P] None, invocation ko [''write'', P] (Some []),
                 invocation ko [''write'', ''--append'', P] (Some C)]) \<and>
   spawned (snd (List h ko P tr)) =
     spawned tr @ [invocation ko [''ls'', ''-1'', ''--nocolor'', P] None]"
  using FileExists_spawned [of h ko P tr] Read_spawned [of h ko P tr]
    Delete_spawned [of h ko P tr] Write_overwrite_spawned [of h ko P C tr]
    Write_append_spawned [of h ko P C tr] List_spawned [of h ko P tr]
  by blast

text \<open>Claim C6, amended, at \<open>Delete\<close> and \<open>List\<close> from an empty trace.\<close>

theorem bridge_arguments_witness:
  "map Args (spawned (snd (Delete (bridge_host quiet_binary) kb the_file []))) =
     [[''keybase'', ''fs'', ''rm'', ''/keybase/team/t/f'']] \<and>
   map Args (spawned (snd (List (bridge_host quiet_binary) kb the_file []))) =
     [[''keybase'', ''fs'', ''ls'', ''-1'', ''--nocolor'', ''/keybase/team/t/f'']]"
  using bridge_arguments [of "bridge_host quiet_binary" kb the_file "[]" "[]"]
  by (simp add: invocation_def kb_def the_file_def)

text \<open>
  Claim C9: on either backend \<open>FileExists\<close> never returns true together with an
  error: an error comes with false, and true comes with nil.
\<close>

theorem FileExists_never_true_with_error:
  "FileExists h ko P tr = ((b, e), tr') \<Longrightarrow> (e \<noteq> None \<longrightarrow> \<not> b) \<and> (b \<longrightarrow> e = None)"
  by (auto simp: FileExists_def Let_def split: prod.splits option.splits if_splits)

text \<open>
  Claim C9 on the bridge with a control binary that fails (an error, and the answer
  false) and on the mount with the file there (the answer true, and no error).
\<close>

theorem FileExists_never_true_with_error_witness:
  "(snd (fst (FileExists (bridge_host broken_binary) kb the_file [])) \<noteq> None \<and>
    \<not> fst (fst (FileExists (bridge_host broken_binary) kb the_file []))) \<and>
   (fst (fst (FileExists (mounted_host [the_file]) kb the_file [])) \<and>
    snd (fst (FileExists (mounted_host [the_file]) kb the_file [])) = None)"
proof -
  have h: "FileExists (bridge_host broken_binary) kb the_file [] =
      ((False, Some (Errorf ''failed to stat /keybase/team/t/f: boom (exit status 1)'')),
       no_mount_probes @
       [CombinedOutput_call (invocation kb [''stat'', the_file] None)
          (Some (''boom'' @ [CHR 0x0A])) (Some exit_status_1)])"
    by code_simp
  have t: "fst (fst (FileExists (mounted_host [the_file]) kb the_file []))"
    by code_simp
  have m: "FileExists (mounted_host [the_file]) kb the_file [] =
      ((fst (fst (FileExists (mounted_host [the_file]) kb the_file [])),
        snd (fst (FileExists (mounted_host [the_file]) kb the_file []))),
       snd (FileExists (mounted_host [the_file]) kb the_file []))"
    by simp
  from FileExists_never_true_with_error [OF h] have 1:
    "snd (fst (FileExists (bridge_host broken_binary) kb the_file [])) \<noteq> None \<and>
     \<not> fst (fst (FileExists (bridge_host broken_binary) kb the_file []))"
    by (simp add: h)
  from FileExists_never_true_with_error [OF m] t have 2:
    "fst (fst (FileExists (mounted_host [the_file]) kb the_file [])) \<and>
     snd (fst (FileExists (mounted_host [the_file]) kb the_file [])) = None"
    by blast
  from 1 2 show ?thesis by (rule conjI)
qed

end
